theory Spec2Isabelle
  imports Main "HOL-Library.Word"
begin

section \<open>Data model\<close>

text \<open>
  The program is a one-shot migration of a SQLite database into PostgreSQL. It exists in
  two variants: \<^verbatim>\<open>src/main.go\<close> (one destination transaction for the whole run,
  four repair rules) and \<^verbatim>\<open>src/unnamed/part_000\<close> (one destination transaction
  per batch, the clamp rule only). Both are embedded below; definitions of the second
  variant carry the suffix \<open>_pb\<close> (per batch).
\<close>

text \<open>
  A \<^verbatim>\<open>time.Time\<close>, by the civil fields the program can observe (\<^verbatim>\<open>Year()\<close>)
  and the rest of the instant.
\<close>

record gotime =
  year :: int
  month :: nat
  day :: nat
  nanos :: nat
  zone :: int

text \<open>
  A scanned column value, \<^verbatim>\<open>interface{}\<close> in the source: what the SQLite driver
  delivers (nil, int64, float64 as its bit pattern, bool, string, []byte, time.Time) and
  the int32 the clamp stores.
\<close>

datatype val =
    VNil
  | VInt64 "64 word"
  | VInt32 "32 word"
  | VFloat64 "64 word"
  | VBool bool
  | VString string
  | VBytes "8 word list"
  | VTime gotime

text \<open>A row is \<^verbatim>\<open>map[string]interface{}\<close>; a batch is \<^verbatim>\<open>rowsSlice\<close>.\<close>

type_synonym row = "string \<rightharpoonup> val"
type_synonym batch = "row list"

text \<open>Indexing a Go map at a missing key gives the zero value, the nil interface.\<close>

definition index :: "row \<Rightarrow> string \<Rightarrow> val" where
  "index r k = (case r k of None \<Rightarrow> VNil | Some v \<Rightarrow> v)"

section \<open>The clamp\<close>

definition MaxInt32 :: "32 word" where
  "MaxInt32 = 2147483647"

definition MinInt32 :: "32 word" where
  "MinInt32 = - 2147483648"

text \<open>
  \<^verbatim>\<open>func clampInt64ToInt32(value int64) int32\<close>, the same in both variants.
  \<open>scast\<close> widens with sign extension (\<^verbatim>\<open>int64(math.MaxInt32)\<close>) and narrows by
  truncation (\<^verbatim>\<open>int32(value)\<close>); the comparisons are signed.
\<close>

definition clampInt64ToInt32 :: "64 word \<Rightarrow> 32 word" where
  "clampInt64ToInt32 v =
     (if (scast MaxInt32 :: 64 word) <s v then MaxInt32
      else if v <s (scast MinInt32 :: 64 word) then MinInt32
      else scast v)"

section \<open>The outside world\<close>

text \<open>
  Every call into a database driver or SQL builder can return an error. Which ones do is
  the environment's choice: \<open>fails\<close> answers for each call, identified by its kind
  and the place of the run it belongs to (the run as a whole, the page of a table at an
  offset, or the sequence statement of a table).
\<close>

datatype site = Run | Page string nat | Seq string

datatype call =
    OpenSqlite
  | OpenPgsql
  | SetReplica
  | SourceBegin site
  | SourceToSQL site
  | SourceQuery site
  | SourceScan site
  | DestBegin site
  | DestToSQL site
  | DestExec site
  | DestCommit site
  | SourceClose
  | DestClose

text \<open>
  The errors \<^verbatim>\<open>migrate\<close> returns, by their message, and the panic of a nil
  dereference.
\<close>

datatype error =
    FailedToOpenDb
  | SourceBeginTx
  | DestBeginTx
  | SourceFailedToSQL
  | QueryFailed
  | FailedStructScan
  | FailedToSQL
  | ExecFailed
  | CommitFailed
  | SourceCloseFailed
  | DestCloseFailed
  | NilPointerPanic

text \<open>
  The lines the run prints: progress (\<^verbatim>\<open>fmt.Printf\<close>) and the diagnostics of the
  repair rules (\<^verbatim>\<open>log.Printf\<close>), each with the arguments it formats.
\<close>

datatype line =
    Fetching string
  | SettingSequences
  | SkippingRow string string string
  | InvalidTime string val
  | OutOfRangeTime string gotime
  | UnrecognizedTime string val

text \<open>
  What the program is given: the rows of every source table in the store's row order;
  for the SELECT of a table at an offset, the number of rows after which
  \<^verbatim>\<open>r.Next()\<close> returns false because stepping to the next row failed
  (\<open>None\<close> when it returns false at the end of the result); the failures of the
  calls that return an error; \<^verbatim>\<open>json.Unmarshal\<close> (its error, if any);
  \<^verbatim>\<open>time.Parse(time.RFC3339, _)\<close> (its result, if any); the clock
  (\<^verbatim>\<open>time.Now().UTC()\<close> at the n-th reading); and, for every table of the
  destination, the row made of its columns' defaults. The two parsers belong to the Go
  standard library and the schema of the destination is not part of the repository:
  they are parameters here.
\<close>

record env =
  source :: "string \<Rightarrow> row list"
  stops :: "string \<Rightarrow> nat \<Rightarrow> nat option"
  fails :: "call \<Rightarrow> bool"
  json_unmarshal :: "string \<Rightarrow> string option"
  time_parse :: "string \<Rightarrow> gotime option"
  now_utc :: "nat \<Rightarrow> gotime"
  defaults :: "string \<Rightarrow> row"

text \<open>
  The rows of every table of the destination, as committed or as a transaction in
  progress sees them.
\<close>

type_synonym contents = "string \<Rightarrow> row list"

text \<open>
  The destination: the committed rows of every table and, for a table whose sequence
  has been set, the id the sequence generates next.
\<close>

record pg =
  tables :: contents
  seqs :: "string \<rightharpoonup> int"

text \<open>
  What the run changes: the committed contents of the destination, the lines printed,
  the number of clock readings taken, and the SELECT statements sent to the source
  (table, LIMIT, OFFSET), oldest first.
\<close>

record world =
  dest :: pg
  out :: "line list"
  ticks :: nat
  issued :: "(string \<times> nat \<times> nat) list"

section \<open>Repair rules of main.go\<close>

text \<open>
  \<^verbatim>\<open>if v, ok := rowsSlice[idx]["interactive_speed"].(int64); ok { ... }\<close>
\<close>

definition clamp_speed :: "row \<Rightarrow> row" where
  "clamp_speed r =
     (case index r ''interactive_speed'' of
        VInt64 v \<Rightarrow> r(''interactive_speed'' \<mapsto> VInt32 (clampInt64ToInt32 v))
      | _ \<Rightarrow> r)"

text \<open>
  \<^verbatim>\<open>reflect.TypeOf(x).String()\<close>: \<^verbatim>\<open>TypeOf\<close> of the nil interface is a nil
  \<^verbatim>\<open>Type\<close>, and calling \<^verbatim>\<open>String\<close> on it panics (\<open>None\<close>).
\<close>

fun type_string :: "val \<Rightarrow> string option" where
  "type_string VNil = None"
| "type_string (VInt64 _) = Some ''int64''"
| "type_string (VInt32 _) = Some ''int32''"
| "type_string (VFloat64 _) = Some ''float64''"
| "type_string (VBool _) = Some ''bool''"
| "type_string (VString _) = Some ''string''"
| "type_string (VBytes _) = Some ''[]uint8''"
| "type_string (VTime _) = Some ''time.Time''"

text \<open>
  \<^verbatim>\<open>for idx := range rowsSlice { rowsSlice[idx]["type"] = reflect.TypeOf(rowsSlice[idx]["value"]).String() }\<close>
\<close>

fun tag_types :: "batch \<Rightarrow> error + batch" where
  "tag_types [] = Inr []"
| "tag_types (r # rs) =
     (case type_string (index r ''value'') of
        None \<Rightarrow> Inl NilPointerPanic
      | Some s \<Rightarrow>
          (case tag_types rs of
             Inl err \<Rightarrow> Inl err
           | Inr rs' \<Rightarrow> Inr (r(''type'' \<mapsto> VString s) # rs')))"

definition json_columns :: "string list" where
  "json_columns = [''find_filter'', ''object_filter'', ''ui_options'']"

text \<open>
  The inner loop of the saved_filters rule over the designated columns: the diagnostic
  of the first column whose string fails to parse (\<^verbatim>\<open>valid = false; break\<close>), or
  \<open>None\<close> when \<^verbatim>\<open>valid\<close> stays true.
\<close>

fun json_check :: "env \<Rightarrow> row \<Rightarrow> string list \<Rightarrow> line option" where
  "json_check e r [] = None"
| "json_check e r (obj # objs) =
     (case index r obj of
        VString strVal \<Rightarrow>
          (case json_unmarshal e strVal of
             Some err \<Rightarrow> Some (SkippingRow obj err strVal)
           | None \<Rightarrow> json_check e r objs)
      | _ \<Rightarrow> json_check e r objs)"

text \<open>The outer loop, with its accumulator \<^verbatim>\<open>validRows\<close>.\<close>

fun filter_json :: "env \<Rightarrow> batch \<Rightarrow> batch \<Rightarrow> world \<Rightarrow> batch \<times> world" where
  "filter_json e [] validRows w = (validRows, w)"
| "filter_json e (r # rs) validRows w =
     (case json_check e r json_columns of
        Some l \<Rightarrow> filter_json e rs validRows (w\<lparr>out := out w @ [l]\<rparr>)
      | None \<Rightarrow> filter_json e rs (validRows @ [r]) w)"

definition isValidPostgresTime :: "gotime \<Rightarrow> bool" where
  "isValidPostgresTime t = (1 \<le> year t)"

definition ts_columns :: "string list" where
  "ts_columns = [''created_at'', ''updated_at'']"

text \<open>
  \<^verbatim>\<open>log.Printf(...); row[tsKey] = time.Now().UTC()\<close>: print the line, read the
  clock, store the reading.
\<close>

definition use_now :: "env \<Rightarrow> string \<Rightarrow> line \<Rightarrow> row \<Rightarrow> world \<Rightarrow> row \<times> world" where
  "use_now e tsKey l r w =
     (r(tsKey \<mapsto> VTime (now_utc e (ticks w))),
      w\<lparr>out := out w @ [l], ticks := Suc (ticks w)\<rparr>)"

text \<open>The body of the loop over the timestamp columns, for one column of one row.\<close>

definition fix_time :: "env \<Rightarrow> string \<Rightarrow> row \<Rightarrow> world \<Rightarrow> row \<times> world" where
  "fix_time e tsKey r w =
     (case r tsKey of
        None \<Rightarrow> (r, w)
      | Some val \<Rightarrow>
          (case val of
             VString v \<Rightarrow>
               (case time_parse e v of
                  None \<Rightarrow> use_now e tsKey (InvalidTime tsKey val) r w
                | Some t \<Rightarrow>
                    if \<not> isValidPostgresTime t then use_now e tsKey (InvalidTime tsKey val) r w
                    else (r(tsKey \<mapsto> VTime t), w))
           | VTime v \<Rightarrow>
               if \<not> isValidPostgresTime v then use_now e tsKey (OutOfRangeTime tsKey v) r w
               else (r, w)
           | _ \<Rightarrow> use_now e tsKey (UnrecognizedTime tsKey val) r w))"

fun fix_times :: "env \<Rightarrow> string list \<Rightarrow> row \<Rightarrow> world \<Rightarrow> row \<times> world" where
  "fix_times e [] r w = (r, w)"
| "fix_times e (tsKey # tsKeys) r w =
     (case fix_time e tsKey r w of (r', w') \<Rightarrow> fix_times e tsKeys r' w')"

fun fix_rows :: "env \<Rightarrow> batch \<Rightarrow> world \<Rightarrow> batch \<times> world" where
  "fix_rows e [] w = ([], w)"
| "fix_rows e (r # rs) w =
     (case fix_times e ts_columns r w of
        (r', w1) \<Rightarrow> (case fix_rows e rs w1 of (rs', w2) \<Rightarrow> (r' # rs', w2)))"

text \<open>
  The four \<^verbatim>\<open>if table == ...\<close> blocks of the insert step, in the order of the source.
\<close>

definition repair :: "env \<Rightarrow> string \<Rightarrow> batch \<Rightarrow> world \<Rightarrow> (error + batch) \<times> world" where
  "repair e table rowsSlice w =
     (let rows1 = (if table = ''video_files'' then map clamp_speed rowsSlice else rowsSlice)
      in case (if table = ''performer_custom_fields'' then tag_types rows1 else Inr rows1) of
           Inl err \<Rightarrow> (Inl err, w)
         | Inr rows2 \<Rightarrow>
             (case (if table = ''saved_filters'' then filter_json e rows2 [] w else (rows2, w)) of
                (rows3, w3) \<Rightarrow>
                  (case (if table = ''scene_markers'' then fix_rows e rows3 w3 else (rows3, w3)) of
                     (rows4, w4) \<Rightarrow> (Inr rows4, w4))))"

section \<open>Connection adapters\<close>

text \<open>
  \<^verbatim>\<open>open_sqlite\<close> opens the source read-only; \<^verbatim>\<open>open_pgsql\<close> opens the
  destination and, \<^verbatim>\<open>disableForeignKeys\<close> being true, sets
  \<^verbatim>\<open>session_replication_role = replica\<close> (\<^verbatim>\<open>writable\<close> being true, nothing
  else). Both are the same in the two variants. Only their failures matter here.
\<close>

datatype open_error = DbOpen | ConnExec

definition open_sqlite :: "env \<Rightarrow> open_error option" where
  "open_sqlite e = (if fails e OpenSqlite then Some DbOpen else None)"

definition open_pgsql :: "env \<Rightarrow> open_error option" where
  "open_pgsql e =
     (if fails e OpenPgsql then Some DbOpen
      else if fails e SetReplica then Some ConnExec
      else None)"

section \<open>The batch migration driver of main.go\<close>

definition batchSize :: nat where
  "batchSize = 1000"

definition table_list :: "string list" where
  "table_list =
     [''blobs'', ''files'', ''files_fingerprints'', ''folders'', ''galleries'',
      ''galleries_chapters'', ''galleries_files'', ''galleries_images'', ''galleries_tags'',
      ''gallery_urls'', ''group_urls'', ''groups'', ''groups_relations'', ''groups_scenes'',
      ''groups_tags'', ''image_files'', ''image_urls'', ''images'', ''images_files'',
      ''images_tags'', ''performer_aliases'', ''performer_stash_ids'', ''performer_urls'',
      ''performers'', ''performers_galleries'', ''performers_images'', ''performers_scenes'',
      ''performers_tags'', ''saved_filters'', ''scene_markers'', ''scene_markers_tags'',
      ''scene_stash_ids'', ''scene_urls'', ''scenes'', ''scenes_files'', ''scenes_galleries'',
      ''scenes_o_dates'', ''scenes_tags'', ''scenes_view_dates'', ''studio_aliases'',
      ''studio_stash_ids'', ''studios'', ''studios_tags'', ''tag_aliases'', ''tags'',
      ''tags_relations'', ''video_captions'', ''video_files'']"

definition seq_tables :: "string list" where
  "seq_tables =
     [''files'', ''folders'', ''galleries_chapters'', ''groups'', ''images'', ''performers'',
      ''saved_filters'', ''scene_markers'', ''scenes'', ''studios'', ''tags'']"

text \<open>
  The result of \<^verbatim>\<open>SELECT * FROM table LIMIT limit OFFSET offset\<close> on the source.
\<close>

definition select_page :: "env \<Rightarrow> string \<Rightarrow> nat \<Rightarrow> nat \<Rightarrow> batch" where
  "select_page e table limit offset = take limit (drop offset (source e table))"

text \<open>
  \<^verbatim>\<open>for r.Next() { ...; rowsSlice = append(rowsSlice, row) }\<close>: the rows appended
  until \<^verbatim>\<open>r.Next()\<close> returns false. It returns false at the end of the result and
  also when stepping fails; the code never reads \<^verbatim>\<open>r.Err()\<close>, so in the second
  case it goes on with the rows it has got so far.
\<close>

definition scanned :: "env \<Rightarrow> string \<Rightarrow> nat \<Rightarrow> nat \<Rightarrow> batch" where
  "scanned e table limit offset =
     (case stops e table offset of
        None \<Rightarrow> select_page e table limit offset
      | Some n \<Rightarrow> take n (select_page e table limit offset))"

text \<open>
  The fetch block: build the statement, send it, scan the rows
  (\<^verbatim>\<open>r.MapScan\<close> is called once for every row stepped to). The page size is the
  constant \<^verbatim>\<open>batchSize\<close> of \<^verbatim>\<open>migrate\<close>, a parameter of the loops here.
\<close>

definition fetch :: "env \<Rightarrow> nat \<Rightarrow> string \<Rightarrow> nat \<Rightarrow> world \<Rightarrow> (error + batch) \<times> world" where
  "fetch e bs table offset w =
     (if fails e (SourceToSQL (Page table offset)) then (Inl SourceFailedToSQL, w)
      else let w1 = w\<lparr>issued := issued w @ [(table, bs, offset)]\<rparr> in
        if fails e (SourceQuery (Page table offset)) then (Inl QueryFailed, w1)
        else let rowsSlice = scanned e table bs offset in
          if rowsSlice \<noteq> [] \<and> fails e (SourceScan (Page table offset))
          then (Inl FailedStructScan, w1)
          else (Inr rowsSlice, w1))"

text \<open>Rows appended to a table.\<close>

definition insert_rows :: "string \<Rightarrow> batch \<Rightarrow> contents \<Rightarrow> contents" where
  "insert_rows table rs c = c(table := c table @ rs)"

text \<open>
  \<^verbatim>\<open>dialect.Insert(table).Rows(rowsSlice)\<close>, built and executed: the multi-row
  INSERT appends the rows of the batch to the table. The code builds and executes the
  statement also when the JSON filter has left the batch empty: the statement built
  from no rows is \<^verbatim>\<open>INSERT INTO table DEFAULT VALUES\<close>, which appends one row, made
  of the columns' defaults.
\<close>

definition exec_insert :: "env \<Rightarrow> string \<Rightarrow> batch \<Rightarrow> contents \<Rightarrow> contents" where
  "exec_insert e table rs c =
     insert_rows table (if rs = [] then [defaults e table] else rs) c"

text \<open>
  The insert block of main.go: the repair rules, then the statement, executed in the
  transaction \<^verbatim>\<open>dtxn\<close> of the whole run; the contents the transaction sees are
  passed along.
\<close>

definition insert_batch ::
    "env \<Rightarrow> string \<Rightarrow> nat \<Rightarrow> batch \<Rightarrow> contents \<Rightarrow> world \<Rightarrow> (error + contents) \<times> world" where
  "insert_batch e table offset rowsSlice dtxn w =
     (case repair e table rowsSlice w of
        (Inl err, w1) \<Rightarrow> (Inl err, w1)
      | (Inr rows', w1) \<Rightarrow>
          if fails e (DestToSQL (Page table offset)) then (Inl FailedToSQL, w1)
          else if fails e (DestExec (Page table offset)) then (Inl ExecFailed, w1)
          else (Inr (exec_insert e table rows' dtxn), w1))"

text \<open>
  The loop over the pages of one table:
  \<^verbatim>\<open>for { fetch; if len(rowsSlice) == 0 { break }; insert; offset += batchSize }\<close>
\<close>

function table_loop ::
    "env \<Rightarrow> nat \<Rightarrow> string \<Rightarrow> nat \<Rightarrow> contents \<Rightarrow> world \<Rightarrow> (error + contents) \<times> world" where
  "table_loop e bs table offset dtxn w =
     (case fetch e bs table offset w of
        (Inl err, w1) \<Rightarrow> (Inl err, w1)
      | (Inr rowsSlice, w1) \<Rightarrow>
          if rowsSlice = [] then (Inr dtxn, w1)
          else (case insert_batch e table offset rowsSlice dtxn w1 of
                  (Inl err, w2) \<Rightarrow> (Inl err, w2)
                | (Inr dtxn', w2) \<Rightarrow> table_loop e bs table (offset + bs) dtxn' w2))"
  by pat_completeness auto
termination
proof (relation "measure (\<lambda>(e, bs, table, offset, dtxn, w). length (source e table) - offset)")
  show "wf (measure (\<lambda>(e, bs, table, offset, dtxn, w). length (source e table) - offset))"
    by simp
next
  fix e :: env and bs table offset and dtxn dtxn' :: contents and w w1 w2 :: world
    and x :: "error + batch" and rowsSlice :: batch
  assume f: "(x, w1) = fetch e bs table offset w" and x: "x = Inr rowsSlice"
    and ne: "rowsSlice \<noteq> []"
  from f x have "rowsSlice = scanned e table bs offset"
    by (auto simp: fetch_def Let_def split: if_splits)
  with ne have "select_page e table bs offset \<noteq> []"
    by (auto simp: scanned_def split: option.splits)
  then have "0 < bs" and "offset < length (source e table)"
    by (auto simp: select_page_def intro: ccontr)
  then show "((e, bs, table, offset + bs, dtxn', w2), (e, bs, table, offset, dtxn, w))
      \<in> measure (\<lambda>(e, bs, table, offset, dtxn, w). length (source e table) - offset)"
    by simp
qed

declare table_loop.simps [simp del]

text \<open>The loop over the tables, each announced by \<^verbatim>\<open>Fetching\<close>.\<close>

fun migrate_tables ::
    "env \<Rightarrow> nat \<Rightarrow> string list \<Rightarrow> contents \<Rightarrow> world \<Rightarrow> (error + contents) \<times> world" where
  "migrate_tables e bs [] dtxn w = (Inr dtxn, w)"
| "migrate_tables e bs (table # rest) dtxn w =
     (case table_loop e bs table 0 dtxn (w\<lparr>out := out w @ [Fetching table]\<rparr>) of
        (Inl err, w1) \<Rightarrow> (Inl err, w1)
      | (Inr dtxn', w1) \<Rightarrow> migrate_tables e bs rest dtxn' w1)"

section \<open>The sequence resynchronizer\<close>

text \<open>The integer in the column \<^verbatim>\<open>id\<close> of a row, if there is one (else SQL NULL).\<close>

definition row_id :: "row \<Rightarrow> int option" where
  "row_id r =
     (case index r ''id'' of
        VInt64 v \<Rightarrow> Some (sint v)
      | VInt32 v \<Rightarrow> Some (sint v)
      | _ \<Rightarrow> None)"

text \<open>SQL's aggregate \<^verbatim>\<open>max\<close>: NULL on no values, which are given without the NULLs.\<close>

fun sql_max :: "int list \<Rightarrow> int option" where
  "sql_max [] = None"
| "sql_max (x # xs) = (case sql_max xs of None \<Rightarrow> Some x | Some m \<Rightarrow> Some (max x m))"

text \<open>
  The statement \<^verbatim>\<open>restart_seq\<close>, for the table whose name is formatted into it:
  \<^verbatim>\<open>SELECT setval(pg_get_serial_sequence(t, 'id'), COALESCE(max(id) + 1, 1), false) FROM t\<close>.
  With \<^verbatim>\<open>is_called = false\<close> the value set is the next one generated. The rows of
  the table are read as the transaction \<open>txn\<close> that executes the statement sees
  them. \<^verbatim>\<open>setval\<close> is not transactional: it changes the sequence of the destination
  at once, and no rollback undoes it.
\<close>

definition restart_value :: "row list \<Rightarrow> int" where
  "restart_value rs =
     (case sql_max (List.map_filter row_id rs) of None \<Rightarrow> 1 | Some m \<Rightarrow> m + 1)"

definition restart_seq :: "string \<Rightarrow> contents \<Rightarrow> pg \<Rightarrow> pg" where
  "restart_seq table_name txn db =
     db\<lparr>seqs := (seqs db)(table_name \<mapsto> restart_value (txn table_name))\<rparr>"

text \<open>The loop over the tables whose sequence main.go sets, inside \<^verbatim>\<open>dtxn\<close>.\<close>

fun set_sequences :: "env \<Rightarrow> string list \<Rightarrow> contents \<Rightarrow> world \<Rightarrow> error option \<times> world" where
  "set_sequences e [] dtxn w = (None, w)"
| "set_sequences e (table_name # rest) dtxn w =
     (if fails e (DestExec (Seq table_name)) then (Some ExecFailed, w)
      else set_sequences e rest dtxn (w\<lparr>dest := restart_seq table_name dtxn (dest w)\<rparr>))"

section \<open>migrate of main.go\<close>

text \<open>
  Both stores are opened, one transaction is begun on each, every table is copied and
  the sequence statements are executed inside the destination's transaction, and that
  transaction is committed once: the rows it has inserted become the destination's.
  Returning an error leaves it uncommitted.
\<close>

definition migrate :: "env \<Rightarrow> world \<Rightarrow> error option \<times> world" where
  "migrate e w =
     (if open_sqlite e \<noteq> None then (Some FailedToOpenDb, w)
      else if open_pgsql e \<noteq> None then (Some FailedToOpenDb, w)
      else if fails e (SourceBegin Run) then (Some SourceBeginTx, w)
      else if fails e (DestBegin Run) then (Some DestBeginTx, w)
      else
        (case migrate_tables e batchSize table_list (tables (dest w)) w of
           (Inl err, w1) \<Rightarrow> (Some err, w1)
         | (Inr dtxn, w1) \<Rightarrow>
             (case set_sequences e seq_tables dtxn (w1\<lparr>out := out w1 @ [SettingSequences]\<rparr>) of
                (Some err, w2) \<Rightarrow> (Some err, w2)
              | (None, w2) \<Rightarrow>
                  if fails e (DestCommit Run) then (Some CommitFailed, w2)
                  else let w3 = w2\<lparr>dest := (dest w2)\<lparr>tables := dtxn\<rparr>\<rparr> in
                    if fails e SourceClose then (Some SourceCloseFailed, w3)
                    else if fails e DestClose then (Some DestCloseFailed, w3)
                    else (None, w3))))"

section \<open>The variant with one transaction per batch (part_000)\<close>

text \<open>
  Its fetch block begins a source transaction for every page and is otherwise the fetch
  block of main.go.
\<close>

definition fetch_pb :: "env \<Rightarrow> nat \<Rightarrow> string \<Rightarrow> nat \<Rightarrow> world \<Rightarrow> (error + batch) \<times> world" where
  "fetch_pb e bs table offset w =
     (if fails e (SourceBegin (Page table offset)) then (Inl SourceBeginTx, w)
      else fetch e bs table offset w)"

text \<open>
  Its insert block: begin a destination transaction, clamp, build and execute the
  statement, commit. Only the commit changes the rows of the destination.
\<close>

definition insert_batch_pb ::
    "env \<Rightarrow> string \<Rightarrow> nat \<Rightarrow> batch \<Rightarrow> world \<Rightarrow> error option \<times> world" where
  "insert_batch_pb e table offset rowsSlice w =
     (if fails e (DestBegin (Page table offset)) then (Some DestBeginTx, w)
      else let txn = tables (dest w);
               rows' = (if table = ''video_files'' then map clamp_speed rowsSlice else rowsSlice)
        in if fails e (DestToSQL (Page table offset)) then (Some FailedToSQL, w)
           else if fails e (DestExec (Page table offset)) then (Some ExecFailed, w)
           else let txn' = exec_insert e table rows' txn
             in if fails e (DestCommit (Page table offset)) then (Some CommitFailed, w)
                else (None, w\<lparr>dest := (dest w)\<lparr>tables := txn'\<rparr>\<rparr>))"

function table_loop_pb ::
    "env \<Rightarrow> nat \<Rightarrow> string \<Rightarrow> nat \<Rightarrow> world \<Rightarrow> error option \<times> world" where
  "table_loop_pb e bs table offset w =
     (case fetch_pb e bs table offset w of
        (Inl err, w1) \<Rightarrow> (Some err, w1)
      | (Inr rowsSlice, w1) \<Rightarrow>
          if rowsSlice = [] then (None, w1)
          else (case insert_batch_pb e table offset rowsSlice w1 of
                  (Some err, w2) \<Rightarrow> (Some err, w2)
                | (None, w2) \<Rightarrow> table_loop_pb e bs table (offset + bs) w2))"
  by pat_completeness auto
termination
proof (relation "measure (\<lambda>(e, bs, table, offset, w). length (source e table) - offset)")
  show "wf (measure (\<lambda>(e, bs, table, offset, w). length (source e table) - offset))"
    by simp
next
  fix e :: env and bs table offset and w w1 w2 :: world
    and x :: "error + batch" and rowsSlice :: batch
  assume f: "(x, w1) = fetch_pb e bs table offset w" and x: "x = Inr rowsSlice"
    and ne: "rowsSlice \<noteq> []"
  from f x have "rowsSlice = scanned e table bs offset"
    by (auto simp: fetch_pb_def fetch_def Let_def split: if_splits)
  with ne have "select_page e table bs offset \<noteq> []"
    by (auto simp: scanned_def split: option.splits)
  then have "0 < bs" and "offset < length (source e table)"
    by (auto simp: select_page_def intro: ccontr)
  then show "((e, bs, table, offset + bs, w2), (e, bs, table, offset, w))
      \<in> measure (\<lambda>(e, bs, table, offset, w). length (source e table) - offset)"
    by simp
qed

declare table_loop_pb.simps [simp del]

fun migrate_tables_pb :: "env \<Rightarrow> nat \<Rightarrow> string list \<Rightarrow> world \<Rightarrow> error option \<times> world" where
  "migrate_tables_pb e bs [] w = (None, w)"
| "migrate_tables_pb e bs (table # rest) w =
     (case table_loop_pb e bs table 0 (w\<lparr>out := out w @ [Fetching table]\<rparr>) of
        (Some err, w1) \<Rightarrow> (Some err, w1)
      | (None, w1) \<Rightarrow> migrate_tables_pb e bs rest w1)"

text \<open>Every sequence statement runs in a transaction of its own.\<close>

fun set_sequences_pb :: "env \<Rightarrow> string list \<Rightarrow> world \<Rightarrow> error option \<times> world" where
  "set_sequences_pb e [] w = (None, w)"
| "set_sequences_pb e (table_name # rest) w =
     (if fails e (DestBegin (Seq table_name)) then (Some DestBeginTx, w)
      else if fails e (DestExec (Seq table_name)) then (Some ExecFailed, w)
      else let w1 = w\<lparr>dest := restart_seq table_name (tables (dest w)) (dest w)\<rparr> in
        if fails e (DestCommit (Seq table_name)) then (Some CommitFailed, w1)
        else set_sequences_pb e rest w1)"

definition migrate_pb :: "env \<Rightarrow> world \<Rightarrow> error option \<times> world" where
  "migrate_pb e w =
     (if open_sqlite e \<noteq> None then (Some FailedToOpenDb, w)
      else if open_pgsql e \<noteq> None then (Some FailedToOpenDb, w)
      else
        (case migrate_tables_pb e batchSize table_list w of
           (Some err, w1) \<Rightarrow> (Some err, w1)
         | (None, w1) \<Rightarrow>
             if fails e SourceClose then (Some SourceCloseFailed, w1)
             else
               (case set_sequences_pb e seq_tables (w1\<lparr>out := out w1 @ [SettingSequences]\<rparr>) of
                  (Some err, w2) \<Rightarrow> (Some err, w2)
                | (None, w2) \<Rightarrow>
                    if fails e DestClose then (Some DestCloseFailed, w2)
                    else (None, w2))))"

section \<open>Notions the properties are stated with\<close>

text \<open>
  Column \<open>obj\<close> of row \<open>r\<close> holds a string that \<^verbatim>\<open>json.Unmarshal\<close> rejects.
\<close>

definition bad_json :: "env \<Rightarrow> row \<Rightarrow> string \<Rightarrow> bool" where
  "bad_json e r obj =
     (case r obj of Some (VString s) \<Rightarrow> json_unmarshal e s \<noteq> None | _ \<Rightarrow> False)"

text \<open>Some designated column of the row holds such a string.\<close>

definition dropped :: "env \<Rightarrow> row \<Rightarrow> bool" where
  "dropped e r = list_ex (bad_json e r) json_columns"



text \<open>The line is the diagnostic of a dropped row.\<close>

fun is_skip :: "line \<Rightarrow> bool" where
  "is_skip (SkippingRow obj err s) = True"
| "is_skip l = False"

text \<open>The lines printed from \<open>w\<close> to \<open>w'\<close>.\<close>

definition printed :: "world \<Rightarrow> world \<Rightarrow> line list" where
  "printed w w' = drop (length (out w)) (out w')"

text \<open>
  From \<open>w\<close> to \<open>w'\<close> nothing was committed to the destination: lines were
  printed, the clock was read, statements were sent to the source.
\<close>

definition grows :: "world \<Rightarrow> world \<Rightarrow> bool" where
  "grows w w' =
     (dest w' = dest w \<and> ticks w \<le> ticks w'
      \<and> take (length (out w)) (out w') = out w \<and> length (out w) \<le> length (out w'))"

text \<open>
  Between the worlds \<open>w\<close> and \<open>w'\<close> the clock was read, the value \<open>x\<close> is that
  reading, and the line \<open>l\<close> was printed.
\<close>

definition replaced_by_now :: "env \<Rightarrow> world \<Rightarrow> world \<Rightarrow> line \<Rightarrow> val option \<Rightarrow> bool" where
  "replaced_by_now e w w' l x =
     ((\<exists>n\<in>{ticks w..<ticks w'}. x = Some (VTime (now_utc e n)))
      \<and> l \<in> set (drop (length (out w)) (out w')))"

text \<open>
  What becomes of a timestamp column \<open>c\<close> holding \<open>old\<close>: a text that parses to
  year 1 or later is replaced by the parsed time, a time of year 1 or later stays, an
  absent column stays absent, and everything else is replaced by the clock's reading,
  with the diagnostic of its case.
\<close>

definition ts_outcome ::
    "env \<Rightarrow> world \<Rightarrow> world \<Rightarrow> string \<Rightarrow> val option \<Rightarrow> val option \<Rightarrow> bool" where
  "ts_outcome e w w' c old new =
     (case old of
        None \<Rightarrow> new = None
      | Some (VString s) \<Rightarrow>
          (case time_parse e s of
             Some t \<Rightarrow>
               if 1 \<le> year t then new = Some (VTime t)
               else replaced_by_now e w w' (InvalidTime c (VString s)) new
           | None \<Rightarrow> replaced_by_now e w w' (InvalidTime c (VString s)) new)
      | Some (VTime t) \<Rightarrow>
          if 1 \<le> year t then new = Some (VTime t)
          else replaced_by_now e w w' (OutOfRangeTime c t) new
      | Some v \<Rightarrow> replaced_by_now e w w' (UnrecognizedTime c v) new)"

text \<open>A row with its type column set to the name of the type of its value column.\<close>

definition tagged :: "row \<Rightarrow> row" where
  "tagged r =
     (case type_string (index r ''value'') of
        Some s \<Rightarrow> r(''type'' \<mapsto> VString s)
      | None \<Rightarrow> r)"











section \<open>Concrete inputs\<close>

text \<open>An empty destination and an empty output.\<close>

definition world0 :: world where
  "world0 = \<lparr>dest = \<lparr>tables = (\<lambda>t. []), seqs = Map.empty\<rparr>, out = [], ticks = 0, issued = []\<rparr>"

text \<open>
  An environment in which every result is stepped through to its end, whose JSON
  parser accepts only \<^verbatim>\<open>{}\<close>, whose time parser accepts two texts, whose clock
  shows the reading's number, and whose tables have no column default.
\<close>

definition clock0 :: "nat \<Rightarrow> gotime" where
  "clock0 n = \<lparr>year = 2025, month = 1, day = 1, nanos = n, zone = 0\<rparr>"

definition parse0 :: "string \<Rightarrow> gotime option" where
  "parse0 s =
     (if s = ''2020-02-03T04:05:06Z'' then
        Some \<lparr>year = 2020, month = 2, day = 3, nanos = 14706000000000, zone = 0\<rparr>
      else if s = ''0000-01-01T00:00:00Z'' then
        Some \<lparr>year = 0, month = 1, day = 1, nanos = 0, zone = 0\<rparr>
      else None)"

definition env0 :: "(string \<Rightarrow> row list) \<Rightarrow> (call \<Rightarrow> bool) \<Rightarrow> env" where
  "env0 src flt =
     \<lparr>source = src, stops = (\<lambda>t off. None), fails = flt,
      json_unmarshal = (\<lambda>s. if s = ''{}'' then None else Some ''unexpected end of JSON input''),
      time_parse = parse0, now_utc = clock0, defaults = (\<lambda>t. Map.empty)\<rparr>"

text \<open>The empty source and the environment in which no call fails.\<close>

definition no_rows :: "string \<Rightarrow> row list" where
  "no_rows t = []"

definition no_faults :: "call \<Rightarrow> bool" where
  "no_faults c = False"

text \<open>Rows of saved_filters: one whose JSON parses, one with a broken object_filter.\<close>

definition row_good :: row where
  "row_good = [''id'' \<mapsto> VInt64 1, ''find_filter'' \<mapsto> VString ''{}'', ''ui_options'' \<mapsto> VNil]"

definition row_bad :: row where
  "row_bad =
     [''id'' \<mapsto> VInt64 2, ''find_filter'' \<mapsto> VString ''{}'', ''object_filter'' \<mapsto> VString ''{'']"

text \<open>Rows of scene_markers with a good and a bad text, a time of year 0 and a good time.\<close>

definition row_ts1 :: row where
  "row_ts1 =
     [''id'' \<mapsto> VInt64 1, ''created_at'' \<mapsto> VString ''2020-02-03T04:05:06Z'',
      ''updated_at'' \<mapsto> VString ''yesterday'']"

definition row_ts2 :: row where
  "row_ts2 =
     [''id'' \<mapsto> VInt64 2,
      ''created_at'' \<mapsto> VTime \<lparr>year = 0, month = 12, day = 31, nanos = 0, zone = 0\<rparr>,
      ''updated_at'' \<mapsto> VTime \<lparr>year = 2021, month = 6, day = 7, nanos = 5, zone = 3600\<rparr>]"

text \<open>Sources with one table filled.\<close>

definition src_files :: "string \<Rightarrow> row list" where
  "src_files t =
     (if t = ''files'' then
        [[''id'' \<mapsto> VInt64 3], [''id'' \<mapsto> VInt64 7], [''id'' \<mapsto> VInt64 12]]
      else [])"

definition src_custom :: "string \<Rightarrow> row list" where
  "src_custom t =
     (if t = ''performer_custom_fields'' then [[''id'' \<mapsto> VInt64 1, ''value'' \<mapsto> VString ''tall'']]
      else [])"


definition only_fails :: "call \<Rightarrow> call \<Rightarrow> bool" where
  "only_fails c c' = (c' = c)"

text \<open>A source whose saved_filters holds a single row, with broken JSON.\<close>

definition src_bad :: "string \<Rightarrow> row list" where
  "src_bad t = (if t = ''saved_filters'' then [row_bad] else [])"

text \<open>
  Stepping through the result of the SELECT of table \<open>t\<close> at offset \<open>off\<close>
  fails after \<open>n\<close> rows, and through no other result.
\<close>

definition stop_after :: "string \<Rightarrow> nat \<Rightarrow> nat \<Rightarrow> string \<Rightarrow> nat \<Rightarrow> nat option" where
  "stop_after t off n t' off' = (if t' = t \<and> off' = off then Some n else None)"

text \<open>
  The environment without failing calls in which files holds the rows with the ids 3,
  7 and 12 and stepping through the result of its first SELECT fails after one row.
\<close>

definition env_short :: env where
  "env_short = (env0 src_files no_faults)\<lparr>stops := stop_after ''files'' 0 1\<rparr>"


section \<open>Properties\<close>

subsection \<open>The clamp\<close>

lemma sint_scast_MaxInt32: "sint (scast MaxInt32 :: 64 word) = 2147483647"
  by (simp add: MaxInt32_def)

lemma sint_scast_MinInt32: "sint (scast MinInt32 :: 64 word) = - 2147483648"
  by (simp add: MinInt32_def)

lemma sint_MaxInt32: "sint MaxInt32 = 2147483647"
  by (simp add: MaxInt32_def)

lemma sint_MinInt32: "sint MinInt32 = - 2147483648"
  by (simp add: MinInt32_def)

lemma sint_narrow:
  assumes "- 2147483648 \<le> sint (v :: 64 word)" and "sint v \<le> 2147483647"
  shows "sint (scast v :: 32 word) = sint v"
proof -
  have "sint (scast v :: 32 word) = signed_take_bit 31 (sint v)"
    by (simp add: signed_scast_eq)
  also from assms have "\<dots> = sint v"
    by (intro signed_take_bit_int_eq_self) simp_all
  finally show ?thesis .
qed

text \<open>
  C6. The clamp maps every 64-bit integer into the 32-bit range: above the 32-bit
  maximum it returns the maximum, below the minimum the minimum, and a value inside the
  range (the two boundaries included) comes back unchanged; the values one unit outside
  the range go to the boundary next to them.
\<close>

theorem clampInt64ToInt32_range:
  "sint (clampInt64ToInt32 v) =
     (if 2147483647 < sint v then 2147483647
      else if sint v < - 2147483648 then - 2147483648
      else sint v)
   \<and> - 2147483648 \<le> sint (clampInt64ToInt32 v) \<and> sint (clampInt64ToInt32 v) \<le> 2147483647
   \<and> clampInt64ToInt32 2147483647 = MaxInt32
   \<and> clampInt64ToInt32 (- 2147483648) = MinInt32
   \<and> clampInt64ToInt32 2147483648 = MaxInt32
   \<and> clampInt64ToInt32 (- 2147483649) = MinInt32"
proof -
  have 1: "sint (clampInt64ToInt32 v) =
     (if 2147483647 < sint v then 2147483647
      else if sint v < - 2147483648 then - 2147483648
      else sint v)"
    by (simp add: clampInt64ToInt32_def word_sless_alt sint_scast_MaxInt32
        sint_scast_MinInt32 sint_MaxInt32 sint_MinInt32 sint_narrow)
  have 2: "clampInt64ToInt32 2147483647 = MaxInt32"
    by (simp add: clampInt64ToInt32_def word_sless_alt sint_scast_MaxInt32
        sint_scast_MinInt32 MaxInt32_def)
  have 3: "clampInt64ToInt32 (- 2147483648) = MinInt32"
    by (simp add: clampInt64ToInt32_def word_sless_alt sint_scast_MaxInt32
        sint_scast_MinInt32 MinInt32_def)
  have 4: "clampInt64ToInt32 2147483648 = MaxInt32"
    by (simp add: clampInt64ToInt32_def word_sless_alt sint_scast_MaxInt32)
  have 5: "clampInt64ToInt32 (- 2147483649) = MinInt32"
    by (simp add: clampInt64ToInt32_def word_sless_alt sint_scast_MaxInt32
        sint_scast_MinInt32)
  from 1 have 6: "- 2147483648 \<le> sint (clampInt64ToInt32 v) \<and> sint (clampInt64ToInt32 v) \<le> 2147483647"
    by (simp split: if_splits)
  from 1 2 3 4 5 6 show ?thesis by blast
qed

subsection \<open>The JSON validity filter\<close>

lemma index_VString: "index r k = VString s \<longleftrightarrow> r k = Some (VString s)"
  by (auto simp: index_def split: option.splits)

lemma json_check_Cons:
  "json_check e r (obj # objs) =
     (if bad_json e r obj then
        (case r obj of Some (VString s) \<Rightarrow> Some (SkippingRow obj (the (json_unmarshal e s)) s) | _ \<Rightarrow> None)
      else json_check e r objs)"
  by (auto simp: bad_json_def index_def split: val.splits option.splits)

lemma json_check_None_iff:
  "json_check e r cols = None \<longleftrightarrow> \<not> list_ex (bad_json e r) cols"
proof (induction cols)
  case Nil
  show ?case by simp
next
  case (Cons obj objs)
  show ?case
  proof (cases "bad_json e r obj")
    case True
    then obtain s err where "r obj = Some (VString s)" "json_unmarshal e s = Some err"
      by (auto simp: bad_json_def split: option.splits val.splits)
    with True show ?thesis by (simp add: index_def)
  next
    case False
    with Cons show ?thesis by (simp add: json_check_Cons del: json_check.simps)
  qed
qed


lemma filter_json_eq:
  "filter_json e rs acc w =
     (acc @ filter (\<lambda>r. json_check e r json_columns = None) rs,
      w\<lparr>out := out w @ List.map_filter (\<lambda>r. json_check e r json_columns) rs\<rparr>)"
  by (induction rs arbitrary: acc w) (auto split: option.splits)

lemma repair_saved_filters:
  "repair e ''saved_filters'' rs w =
     (Inr (filter (\<lambda>r. json_check e r json_columns = None) rs),
      w\<lparr>out := out w @ List.map_filter (\<lambda>r. json_check e r json_columns) rs\<rparr>)"
  by (simp add: repair_def filter_json_eq)




lemma json_check_non_string:
  assumes "\<forall>s. v \<noteq> VString s"
  shows "json_check e (r(obj \<mapsto> v)) cols = json_check e (r(obj := None)) cols"
  using assms by (induction cols) (auto simp: index_def split: val.splits option.splits)

lemma bad_json_upd_other: "c \<noteq> obj \<Longrightarrow> bad_json e (r(obj \<mapsto> v)) c = bad_json e r c"
  by (simp add: bad_json_def)

lemma bad_json_non_string: "\<forall>s. v \<noteq> VString s \<Longrightarrow> \<not> bad_json e (r(obj \<mapsto> v)) obj"
  by (cases v) (auto simp: bad_json_def)

text \<open>
  C9. The filter parses a designated column only when it holds a string: with any value
  that is not a string in a designated column (nil, bytes, a number), the check of the
  row is the check of the row without that column, the column does not count as
  failing, and the row is dropped exactly when another designated column fails.
\<close>

theorem json_filter_ignores_non_strings:
  assumes "\<forall>s. v \<noteq> VString s"
  shows "json_check e (r(obj \<mapsto> v)) json_columns = json_check e (r(obj := None)) json_columns
    \<and> \<not> bad_json e (r(obj \<mapsto> v)) obj
    \<and> (fst (repair e ''saved_filters'' [r(obj \<mapsto> v)] w) = Inr []
         \<longleftrightarrow> (\<exists>c\<in>set json_columns. c \<noteq> obj \<and> bad_json e r c))"
proof -
  have "list_ex (bad_json e (r(obj \<mapsto> v))) json_columns
      \<longleftrightarrow> (\<exists>c\<in>set json_columns. c \<noteq> obj \<and> bad_json e r c)"
  proof -
    have "bad_json e (r(obj \<mapsto> v)) c \<longleftrightarrow> c \<noteq> obj \<and> bad_json e r c" for c
      using bad_json_non_string [OF assms, of e r obj] bad_json_upd_other [of c obj e r v]
      by (cases "c = obj") simp_all
    then show ?thesis by (simp add: list_ex_iff)
  qed
  then have "fst (repair e ''saved_filters'' [r(obj \<mapsto> v)] w) = Inr []
         \<longleftrightarrow> (\<exists>c\<in>set json_columns. c \<noteq> obj \<and> bad_json e r c)"
    by (simp add: repair_saved_filters json_check_None_iff)
  with json_check_non_string [OF assms] bad_json_non_string [OF assms] show ?thesis
    by blast
qed

theorem json_filter_ignores_non_strings_witness:
  "fst (repair (env0 no_rows no_faults) ''saved_filters'' [row_good(''object_filter'' \<mapsto> VBytes [123])] world0)
      \<noteq> Inr []
   \<and> fst (repair (env0 no_rows no_faults) ''saved_filters'' [row_bad(''object_filter'' \<mapsto> VNil)] world0)
      \<noteq> Inr []
   \<and> fst (repair (env0 no_rows no_faults) ''saved_filters'' [row_bad(''ui_options'' \<mapsto> VNil)] world0)
      = Inr []"
proof -
  have v: "\<forall>s. VBytes [123] \<noteq> VString s" "\<forall>s. VNil \<noteq> VString s" by simp_all
  have g: "\<not> (\<exists>c\<in>set json_columns. c \<noteq> ''object_filter'' \<and> bad_json (env0 no_rows no_faults) row_good c)"
    by (simp add: json_columns_def bad_json_def row_good_def env0_def)
  have b: "\<not> (\<exists>c\<in>set json_columns. c \<noteq> ''object_filter'' \<and> bad_json (env0 no_rows no_faults) row_bad c)"
    by (simp add: json_columns_def bad_json_def row_bad_def env0_def)
  have b2: "\<exists>c\<in>set json_columns. c \<noteq> ''ui_options'' \<and> bad_json (env0 no_rows no_faults) row_bad c"
    by (simp add: json_columns_def bad_json_def row_bad_def env0_def)
  from json_filter_ignores_non_strings [OF v(1), of "env0 no_rows no_faults" row_good "''object_filter''" world0]
    json_filter_ignores_non_strings [OF v(2), of "env0 no_rows no_faults" row_bad "''object_filter''" world0]
    json_filter_ignores_non_strings [OF v(2), of "env0 no_rows no_faults" row_bad "''ui_options''" world0]
    g b b2
  show ?thesis by blast
qed

subsection \<open>Timestamp normalization\<close>

lemma grows_refl: "grows w w"
  by (simp add: grows_def)

lemma grows_out: "grows w w' \<Longrightarrow> out w' = out w @ printed w w'"
  unfolding grows_def printed_def by (metis append_take_drop_id)

lemma grows_trans: "grows w w1 \<Longrightarrow> grows w1 w2 \<Longrightarrow> grows w w2"
proof -
  assume a: "grows w w1" and b: "grows w1 w2"
  from grows_out [OF a] grows_out [OF b]
  have "out w2 = out w @ printed w w1 @ printed w1 w2" by simp
  then have "take (length (out w)) (out w2) = out w \<and> length (out w) \<le> length (out w2)"
    by simp
  with a b show ?thesis by (simp add: grows_def)
qed

lemma printed_trans:
  "grows w w1 \<Longrightarrow> grows w1 w2 \<Longrightarrow> printed w w2 = printed w w1 @ printed w1 w2"
proof -
  assume a: "grows w w1" and b: "grows w1 w2"
  from grows_out [OF a] grows_out [OF b]
  have "out w2 = out w @ printed w w1 @ printed w1 w2" by simp
  then show ?thesis by (simp add: printed_def [of w w2])
qed

lemma printed_refl: "printed w w = []"
  by (simp add: printed_def)


lemma printed_print: "printed w (w\<lparr>out := out w @ L\<rparr>) = L"
  by (simp add: printed_def)

lemma replaced_widen:
  assumes r: "replaced_by_now e w1 w2 l x"
    and g: "grows w0 w1" "grows w1 w2" "grows w2 w3"
  shows "replaced_by_now e w0 w3 l x"
proof -
  from g have t: "ticks w0 \<le> ticks w1" "ticks w2 \<le> ticks w3"
    by (simp_all add: grows_def)
  from r obtain n where n: "ticks w1 \<le> n" "n < ticks w2" "x = Some (VTime (now_utc e n))"
    and l: "l \<in> set (printed w1 w2)"
    by (auto simp: replaced_by_now_def printed_def)
  from g have "printed w0 w3 = printed w0 w1 @ printed w1 w2 @ printed w2 w3"
    by (simp add: printed_trans [OF g(1) grows_trans [OF g(2) g(3)]] printed_trans [OF g(2) g(3)])
  with l have "l \<in> set (printed w0 w3)" by simp
  moreover from n t have "\<exists>m\<in>{ticks w0..<ticks w3}. x = Some (VTime (now_utc e m))"
    by (intro bexI [of _ n]) auto
  ultimately show ?thesis by (simp add: replaced_by_now_def printed_def)
qed

lemma ts_outcome_widen:
  assumes "ts_outcome e w1 w2 c old new"
    and "grows w0 w1" "grows w1 w2" "grows w2 w3"
  shows "ts_outcome e w0 w3 c old new"
  using assms(1) replaced_widen [OF _ assms(2-4)]
  by (auto simp: ts_outcome_def split: option.splits val.splits if_splits)

lemma use_now_grows: "use_now e c l r w = (r', w') \<Longrightarrow> grows w w'"
  by (auto simp: use_now_def grows_def)

lemma use_now_replaced:
  "use_now e c l r w = (r', w') \<Longrightarrow> replaced_by_now e w w' l (r' c)"
  by (auto simp: use_now_def replaced_by_now_def)

lemma use_now_other: "use_now e c l r w = (r', w') \<Longrightarrow> k \<noteq> c \<Longrightarrow> r' k = r k"
  by (auto simp: use_now_def)

lemma use_now_printed: "use_now e c l r w = (r', w') \<Longrightarrow> printed w w' = [l]"
  by (auto simp: use_now_def printed_def)

lemma fix_time_grows: "fix_time e c r w = (r', w') \<Longrightarrow> grows w w'"
  by (auto simp: fix_time_def grows_refl split: option.splits val.splits if_splits
      dest: use_now_grows)

lemma fix_time_other: "fix_time e c r w = (r', w') \<Longrightarrow> k \<noteq> c \<Longrightarrow> r' k = r k"
  by (auto simp: fix_time_def split: option.splits val.splits if_splits
      dest: use_now_other)

lemma fix_time_no_skip: "fix_time e c r w = (r', w') \<Longrightarrow> filter is_skip (printed w w') = []"
  by (auto simp: fix_time_def printed_refl split: option.splits val.splits if_splits
      dest!: use_now_printed)

lemma fix_time_outcome:
  "fix_time e c r w = (r', w') \<Longrightarrow> ts_outcome e w w' c (r c) (r' c)"
  by (auto simp: fix_time_def ts_outcome_def isValidPostgresTime_def
      split: option.splits val.splits if_splits dest: use_now_replaced)

lemma fix_times_grows: "fix_times e cs r w = (r', w') \<Longrightarrow> grows w w'"
proof (induction cs arbitrary: r w)
  case Nil
  then show ?case by (simp add: grows_refl)
next
  case (Cons c cs)
  then show ?case
    by (auto split: prod.splits dest: fix_time_grows intro: grows_trans)
qed

lemma fix_times_no_skip:
  "fix_times e cs r w = (r', w') \<Longrightarrow> filter is_skip (printed w w') = []"
proof (induction cs arbitrary: r w)
  case Nil
  then show ?case by (simp add: printed_refl)
next
  case (Cons c cs)
  from Cons.prems obtain r1 w1 where 1: "fix_time e c r w = (r1, w1)"
    and 2: "fix_times e cs r1 w1 = (r', w')"
    by (auto split: prod.splits)
  from printed_trans [OF fix_time_grows [OF 1] fix_times_grows [OF 2]]
    fix_time_no_skip [OF 1] Cons.IH [OF 2]
  show ?case by simp
qed

lemma fix_times_other:
  "fix_times e cs r w = (r', w') \<Longrightarrow> k \<notin> set cs \<Longrightarrow> r' k = r k"
proof (induction cs arbitrary: r w)
  case Nil
  then show ?case by simp
next
  case (Cons c cs)
  from Cons.prems obtain r1 w1 where 1: "fix_time e c r w = (r1, w1)"
    and 2: "fix_times e cs r1 w1 = (r', w')"
    by (auto split: prod.splits)
  from Cons.prems(2) Cons.IH [OF 2] fix_time_other [OF 1, of k] show ?case by simp
qed

lemma fix_times_outcome:
  "fix_times e cs r w = (r', w') \<Longrightarrow> distinct cs \<Longrightarrow> c \<in> set cs \<Longrightarrow>
     ts_outcome e w w' c (r c) (r' c)"
proof (induction cs arbitrary: r w)
  case Nil
  then show ?case by simp
next
  case (Cons a cs)
  from Cons.prems obtain r1 w1 where 1: "fix_time e a r w = (r1, w1)"
    and 2: "fix_times e cs r1 w1 = (r', w')"
    by (auto split: prod.splits)
  note g1 = fix_time_grows [OF 1] and g2 = fix_times_grows [OF 2]
  show ?case
  proof (cases "c = a")
    case True
    with Cons.prems have "a \<notin> set cs" by simp
    from fix_times_other [OF 2 this] have "r' a = r1 a" .
    with fix_time_outcome [OF 1] have "ts_outcome e w w1 a (r a) (r' a)" by simp
    from ts_outcome_widen [OF this grows_refl g1 g2] True show ?thesis by simp
  next
    case False
    with Cons.prems have c: "c \<in> set cs" "distinct cs" by simp_all
    from Cons.IH [OF 2 c(2) c(1)] fix_time_other [OF 1 False]
    have "ts_outcome e w1 w' c (r c) (r' c)" by simp
    from ts_outcome_widen [OF this g1 g2 grows_refl] show ?thesis .
  qed
qed

lemma fix_rows_grows: "fix_rows e rs w = (rs', w') \<Longrightarrow> grows w w'"
proof (induction rs arbitrary: w rs')
  case Nil
  then show ?case by (simp add: grows_refl)
next
  case (Cons r rs)
  then show ?case
    by (auto split: prod.splits dest: fix_times_grows intro: grows_trans)
qed

lemma fix_rows_length: "fix_rows e rs w = (rs', w') \<Longrightarrow> length rs' = length rs"
  by (induction rs arbitrary: w rs') (auto split: prod.splits)

lemma fix_rows_no_skip:
  "fix_rows e rs w = (rs', w') \<Longrightarrow> filter is_skip (printed w w') = []"
proof (induction rs arbitrary: w rs')
  case Nil
  then show ?case by (simp add: printed_refl)
next
  case (Cons r rs)
  from Cons.prems obtain r1 w1 rs1 where 1: "fix_times e ts_columns r w = (r1, w1)"
    and 2: "fix_rows e rs w1 = (rs1, w')"
    by (auto split: prod.splits)
  from printed_trans [OF fix_times_grows [OF 1] fix_rows_grows [OF 2]]
    fix_times_no_skip [OF 1] Cons.IH [OF 2]
  show ?case by simp
qed

lemma fix_rows_other:
  "fix_rows e rs w = (rs', w') \<Longrightarrow> i < length rs \<Longrightarrow> k \<notin> set ts_columns \<Longrightarrow>
     (rs' ! i) k = (rs ! i) k"
proof (induction rs arbitrary: w rs' i)
  case Nil
  then show ?case by simp
next
  case (Cons r rs)
  from Cons.prems obtain r1 w1 rs1 where 1: "fix_times e ts_columns r w = (r1, w1)"
    and 2: "fix_rows e rs w1 = (rs1, w')" and 3: "rs' = r1 # rs1"
    by (auto split: prod.splits)
  show ?case
  proof (cases i)
    case 0
    with 3 fix_times_other [OF 1 Cons.prems(3)] show ?thesis by simp
  next
    case (Suc j)
    with Cons.prems have "j < length rs" by simp
    from Cons.IH [OF 2 this Cons.prems(3)] 3 Suc show ?thesis by simp
  qed
qed

lemma fix_rows_outcome:
  "fix_rows e rs w = (rs', w') \<Longrightarrow> i < length rs \<Longrightarrow> c \<in> set ts_columns \<Longrightarrow>
     ts_outcome e w w' c ((rs ! i) c) ((rs' ! i) c)"
proof (induction rs arbitrary: w rs' i)
  case Nil
  then show ?case by simp
next
  case (Cons r rs)
  from Cons.prems obtain r1 w1 rs1 where 1: "fix_times e ts_columns r w = (r1, w1)"
    and 2: "fix_rows e rs w1 = (rs1, w')" and 3: "rs' = r1 # rs1"
    by (auto split: prod.splits)
  note g1 = fix_times_grows [OF 1] and g2 = fix_rows_grows [OF 2]
  have d: "distinct ts_columns" by (simp add: ts_columns_def)
  show ?case
  proof (cases i)
    case 0
    from fix_times_outcome [OF 1 d Cons.prems(3)]
    have "ts_outcome e w w1 c (r c) (r1 c)" .
    from ts_outcome_widen [OF this grows_refl g1 g2] 0 3 show ?thesis by simp
  next
    case (Suc j)
    with Cons.prems have "j < length rs" by simp
    from Cons.IH [OF 2 this Cons.prems(3)]
    have "ts_outcome e w1 w' c ((rs ! j) c) ((rs1 ! j) c)" .
    from ts_outcome_widen [OF this g1 g2 grows_refl] Suc 3 show ?thesis by simp
  qed
qed

lemma repair_scene_markers:
  "repair e ''scene_markers'' rs w = (Inr (fst (fix_rows e rs w)), snd (fix_rows e rs w))"
  by (simp add: repair_def split: prod.splits)

text \<open>
  C5. On a batch of scene_markers the rule returns as many rows as it was given, and
  for every row and each of the columns created_at and updated_at: a text that parses
  to a time of year 1 or later is replaced by the parsed time; a text that does not
  parse, a text or a time of a year before 1, and a value of any other type are
  replaced by a reading of the clock taken during the rule, with the diagnostic of the
  case printed; a time of year 1 or later stays; every other column stays.
\<close>

theorem scene_markers_timestamps:
  "\<exists>rs'. fst (repair e ''scene_markers'' rs w) = Inr rs' \<and> length rs' = length rs
     \<and> (\<forall>i<length rs. \<forall>c\<in>set ts_columns.
           ts_outcome e w (snd (repair e ''scene_markers'' rs w)) c ((rs ! i) c) ((rs' ! i) c))
     \<and> (\<forall>i<length rs. \<forall>k. k \<notin> set ts_columns \<longrightarrow> (rs' ! i) k = (rs ! i) k)"
proof -
  obtain rs' w' where f: "fix_rows e rs w = (rs', w')" by (cases "fix_rows e rs w")
  then have r: "repair e ''scene_markers'' rs w = (Inr rs', w')"
    by (simp add: repair_scene_markers)
  from r fix_rows_length [OF f] fix_rows_outcome [OF f] fix_rows_other [OF f]
  show ?thesis by auto
qed

theorem scene_markers_timestamps_witness:
  "\<exists>rs'. fst (repair (env0 no_rows no_faults) ''scene_markers'' [row_ts1, row_ts2] world0) = Inr rs'
     \<and> length rs' = 2
     \<and> (rs' ! 0) ''created_at''
          = Some (VTime \<lparr>year = 2020, month = 2, day = 3, nanos = 14706000000000, zone = 0\<rparr>)
     \<and> replaced_by_now (env0 no_rows no_faults) world0
          (snd (repair (env0 no_rows no_faults) ''scene_markers'' [row_ts1, row_ts2] world0))
          (InvalidTime ''updated_at'' (VString ''yesterday'')) ((rs' ! 0) ''updated_at'')
     \<and> replaced_by_now (env0 no_rows no_faults) world0
          (snd (repair (env0 no_rows no_faults) ''scene_markers'' [row_ts1, row_ts2] world0))
          (OutOfRangeTime ''created_at'' \<lparr>year = 0, month = 12, day = 31, nanos = 0, zone = 0\<rparr>)
          ((rs' ! 1) ''created_at'')
     \<and> (rs' ! 1) ''updated_at''
          = Some (VTime \<lparr>year = 2021, month = 6, day = 7, nanos = 5, zone = 3600\<rparr>)
     \<and> (rs' ! 1) ''id'' = Some (VInt64 2)"
proof -
  let ?e = "env0 no_rows no_faults"
  let ?w' = "snd (repair ?e ''scene_markers'' [row_ts1, row_ts2] world0)"
  from scene_markers_timestamps [of ?e "[row_ts1, row_ts2]" world0]
  obtain rs' where r: "fst (repair ?e ''scene_markers'' [row_ts1, row_ts2] world0) = Inr rs'"
    and l: "length rs' = 2"
    and o: "\<And>i c. i < 2 \<Longrightarrow> c \<in> set ts_columns \<Longrightarrow>
           ts_outcome ?e world0 ?w' c (([row_ts1, row_ts2] ! i) c) ((rs' ! i) c)"
    and k: "\<And>i k. i < 2 \<Longrightarrow> k \<notin> set ts_columns \<Longrightarrow> (rs' ! i) k = ([row_ts1, row_ts2] ! i) k"
    by auto
  from o [of 0 "''created_at''"] have 1: "(rs' ! 0) ''created_at''
          = Some (VTime \<lparr>year = 2020, month = 2, day = 3, nanos = 14706000000000, zone = 0\<rparr>)"
    by (simp add: ts_columns_def ts_outcome_def row_ts1_def env0_def parse0_def)
  from o [of 0 "''updated_at''"] have 2: "replaced_by_now ?e world0 ?w'
          (InvalidTime ''updated_at'' (VString ''yesterday'')) ((rs' ! 0) ''updated_at'')"
    by (simp add: ts_columns_def ts_outcome_def row_ts1_def env0_def parse0_def)
  from o [of 1 "''created_at''"] have 3: "replaced_by_now ?e world0 ?w'
          (OutOfRangeTime ''created_at'' \<lparr>year = 0, month = 12, day = 31, nanos = 0, zone = 0\<rparr>)
          ((rs' ! 1) ''created_at'')"
    by (simp add: ts_columns_def ts_outcome_def row_ts2_def)
  from o [of 1 "''updated_at''"] have 4: "(rs' ! 1) ''updated_at''
          = Some (VTime \<lparr>year = 2021, month = 6, day = 7, nanos = 5, zone = 3600\<rparr>)"
    by (simp add: ts_columns_def ts_outcome_def row_ts2_def)
  from k [of 1 "''id''"] have 5: "(rs' ! 1) ''id'' = Some (VInt64 2)"
    by (simp add: ts_columns_def row_ts2_def)
  from r l 1 2 3 4 5 show ?thesis by blast
qed

subsection \<open>The derived type tag\<close>

lemma type_string_None: "type_string v = None \<longleftrightarrow> v = VNil"
  by (cases v) simp_all

lemma tag_types_eq:
  "tag_types rs =
     (if list_ex (\<lambda>r. index r ''value'' = VNil) rs then Inl NilPointerPanic
      else Inr (map tagged rs))"
proof (induction rs)
  case Nil
  show ?case by simp
next
  case (Cons r rs)
  show ?case
  proof (cases "index r ''value'' = VNil")
    case True
    then show ?thesis by simp
  next
    case False
    then obtain s where s: "type_string (index r ''value'') = Some s"
      by (cases "type_string (index r ''value'')") (auto simp: type_string_None)
    with False Cons show ?thesis by (simp add: tagged_def)
  qed
qed

lemma repair_performer_custom_fields:
  "fst (repair e ''performer_custom_fields'' rs w) = tag_types rs"
  by (simp add: repair_def split: sum.splits)

text \<open>
  C10. The type-tag rule produces a batch only when the value column of every row is
  non-nil: on a batch with a row whose value column is nil (or absent, which reads as
  nil) taking the type's name dereferences a nil type descriptor and the rule panics; on
  every other batch it returns each row with its type column set.
\<close>

theorem type_tag_panics_on_nil:
  "fst (repair e ''performer_custom_fields'' rs w) =
     (if list_ex (\<lambda>r. index r ''value'' = VNil) rs then Inl NilPointerPanic
      else Inr (map tagged rs))
   \<and> fst (repair e ''performer_custom_fields'' [[''id'' \<mapsto> VInt64 1, ''value'' \<mapsto> VNil]] w)
       = Inl NilPointerPanic
   \<and> fst (repair e ''performer_custom_fields'' [[''id'' \<mapsto> VInt64 1]] w) = Inl NilPointerPanic
   \<and> fst (repair e ''performer_custom_fields'' [[''id'' \<mapsto> VInt64 1, ''value'' \<mapsto> VInt64 5]] w)
       = Inr [[''id'' \<mapsto> VInt64 1, ''value'' \<mapsto> VInt64 5, ''type'' \<mapsto> VString ''int64'']]"
proof -
  have general: "fst (repair e ''performer_custom_fields'' rs w) =
     (if list_ex (\<lambda>r. index r ''value'' = VNil) rs then Inl NilPointerPanic
      else Inr (map tagged rs))" for rs
    by (simp only: repair_performer_custom_fields tag_types_eq)
  have nil_value: "fst (repair e ''performer_custom_fields''
      [[''id'' \<mapsto> VInt64 1, ''value'' \<mapsto> VNil]] w) = Inl NilPointerPanic"
    by (simp add: general index_def)
  have no_value: "fst (repair e ''performer_custom_fields'' [[''id'' \<mapsto> VInt64 1]] w)
      = Inl NilPointerPanic"
    by (simp add: general index_def)
  have int_value: "fst (repair e ''performer_custom_fields''
      [[''id'' \<mapsto> VInt64 1, ''value'' \<mapsto> VInt64 5]] w)
       = Inr [[''id'' \<mapsto> VInt64 1, ''value'' \<mapsto> VInt64 5, ''type'' \<mapsto> VString ''int64'']]"
    by (simp add: general index_def tagged_def)
  from general [of rs] nil_value no_value int_value show ?thesis by blast
qed


subsection \<open>The repair step as a whole\<close>






lemma repair_total:
  "t \<noteq> ''performer_custom_fields'' \<Longrightarrow> \<exists>rs' w'. repair e t rs w = (Inr rs', w')"
  by (simp add: repair_def split: prod.splits)

subsection \<open>The table loop of main.go\<close>


lemma fetch_ok:
  "\<forall>c. \<not> fails e c \<Longrightarrow>
   fetch e bs t off w = (Inr (scanned e t bs off), w\<lparr>issued := issued w @ [(t, bs, off)]\<rparr>)"
  by (simp add: fetch_def)


lemma insert_batch_frame:
  "insert_batch e t off rs tx w = (Inr tx', w') \<Longrightarrow> t' \<noteq> t \<Longrightarrow> tx' t' = tx t'"
  by (auto simp: insert_batch_def exec_insert_def insert_rows_def
      split: prod.splits sum.splits if_splits)

lemma table_loop_cases:
  assumes "table_loop e bs t off tx w = (res, w')"
  obtains
    (fetch_failed) err where "fetch e bs t off w = (Inl err, w')" "res = Inl err"
  | (finished) "fetch e bs t off w = (Inr [], w')" "res = Inr tx"
  | (insert_failed) rs w1 err where "fetch e bs t off w = (Inr rs, w1)" "rs \<noteq> []"
      "insert_batch e t off rs tx w1 = (Inl err, w')" "res = Inl err"
  | (step) rs w1 tx1 w2 where "fetch e bs t off w = (Inr rs, w1)" "rs \<noteq> []"
      "insert_batch e t off rs tx w1 = (Inr tx1, w2)"
      "table_loop e bs t (off + bs) tx1 w2 = (res, w')"
  using assms
  by (subst (asm) table_loop.simps) (auto split: prod.splits sum.splits if_splits)


lemma table_loop_frame:
  "table_loop e bs t off tx w = (Inr tx', w') \<Longrightarrow> t' \<noteq> t \<Longrightarrow> tx' t' = tx t'"
proof (induction e bs t off tx w rule: table_loop.induct)
  case (1 e bs t off tx w)
  from "1.prems"(1) show ?case
  proof (cases rule: table_loop_cases)
    case (fetch_failed err)
    then show ?thesis by simp
  next
    case finished
    then show ?thesis by simp
  next
    case (insert_failed rs w1 err)
    then show ?thesis by simp
  next
    case (step rs w1 tx1 w2)
    from "1.IH" [OF step(1) [symmetric] refl step(2) step(3) [symmetric] refl step(4) "1.prems"(2)]
    have "tx' t' = tx1 t'" .
    with insert_batch_frame [OF step(3) "1.prems"(2)] show ?thesis by simp
  qed
qed

lemma table_loop_succeeds:
  "\<forall>c. \<not> fails e c \<Longrightarrow> t \<noteq> ''performer_custom_fields'' \<Longrightarrow>
     \<exists>tx' w'. table_loop e bs t off tx w = (Inr tx', w')"
proof (induction e bs t off tx w rule: table_loop.induct)
  case (1 e bs t off tx w)
  let ?rs = "scanned e t bs off"
  let ?w1 = "w\<lparr>issued := issued w @ [(t, bs, off)]\<rparr>"
  have f: "fetch e bs t off w = (Inr ?rs, ?w1)"
    using "1.prems"(1) by (rule fetch_ok)
  show ?case
  proof (cases "?rs = []")
    case True
    with f show ?thesis by (subst table_loop.simps) simp
  next
    case False
    from repair_total [OF "1.prems"(2)] obtain rs' w2 where
      r: "repair e t ?rs ?w1 = (Inr rs', w2)" by blast
    with "1.prems"(1) have i: "insert_batch e t off ?rs tx ?w1 = (Inr (exec_insert e t rs' tx), w2)"
      by (simp add: insert_batch_def)
    from "1.IH" [OF f [symmetric] refl False i [symmetric] refl "1.prems"]
    obtain tx' w' where "table_loop e bs t (off + bs) (exec_insert e t rs' tx) w2 = (Inr tx', w')"
      by blast
    with f i False show ?thesis by (subst table_loop.simps) simp
  qed
qed

subsection \<open>The run of main.go\<close>



lemma migrate_tables_frame:
  "migrate_tables e bs ts tx w = (Inr tx', w') \<Longrightarrow> t' \<notin> set ts \<Longrightarrow> tx' t' = tx t'"
proof (induction ts arbitrary: tx w)
  case Nil
  then show ?case by simp
next
  case (Cons t ts)
  from Cons.prems(1) obtain tx1 w1 where
    1: "table_loop e bs t 0 tx (w\<lparr>out := out w @ [Fetching t]\<rparr>) = (Inr tx1, w1)"
    and 2: "migrate_tables e bs ts tx1 w1 = (Inr tx', w')"
    by (auto split: prod.splits sum.splits)
  from Cons.prems(2) have "t' \<noteq> t" "t' \<notin> set ts" by auto
  with table_loop_frame [OF 1] Cons.IH [OF 2] show ?case by simp
qed

lemma migrate_tables_succeeds:
  "\<forall>c. \<not> fails e c \<Longrightarrow> ''performer_custom_fields'' \<notin> set ts \<Longrightarrow>
     \<exists>tx' w'. migrate_tables e bs ts tx w = (Inr tx', w')"
proof (induction ts arbitrary: tx w)
  case Nil
  then show ?case by simp
next
  case (Cons t ts)
  from Cons.prems have "t \<noteq> ''performer_custom_fields''" by auto
  from table_loop_succeeds [OF Cons.prems(1) this] obtain tx1 w1 where
    "table_loop e bs t 0 tx (w\<lparr>out := out w @ [Fetching t]\<rparr>) = (Inr tx1, w1)" by blast
  moreover from Cons.IH [of tx1 w1] Cons.prems obtain tx' w' where
    "migrate_tables e bs ts tx1 w1 = (Inr tx', w')" by auto
  ultimately show ?case by simp
qed



lemma set_sequences_succeeds:
  "\<forall>c. \<not> fails e c \<Longrightarrow> \<exists>w'. set_sequences e ts tx w = (None, w')"
  by (induction ts arbitrary: w) simp_all



lemma migrate_None:
  assumes "fst (migrate e w) = None"
  obtains tx w1 w2 where "migrate_tables e batchSize table_list (tables (dest w)) w = (Inr tx, w1)"
    and "set_sequences e seq_tables tx (w1\<lparr>out := out w1 @ [SettingSequences]\<rparr>) = (None, w2)"
    and "snd (migrate e w) = w2\<lparr>dest := (dest w2)\<lparr>tables := tx\<rparr>\<rparr>"
  using assms
  by (auto simp: migrate_def open_sqlite_def open_pgsql_def Let_def
      split: if_splits prod.splits sum.splits option.splits)


lemma custom_fields_not_listed: "''performer_custom_fields'' \<notin> set table_list"
  by (simp add: table_list_def)

lemma migrate_succeeds:
  assumes "\<forall>c. \<not> fails e c"
  shows "fst (migrate e w) = None"
proof -
  from migrate_tables_succeeds [OF assms custom_fields_not_listed]
  obtain tx w1 where 1: "migrate_tables e batchSize table_list (tables (dest w)) w = (Inr tx, w1)"
    by blast
  from set_sequences_succeeds [OF assms]
  obtain w2 where 2: "set_sequences e seq_tables tx (w1\<lparr>out := out w1 @ [SettingSequences]\<rparr>) = (None, w2)"
    by blast
  from assms 1 2 show ?thesis by (simp add: migrate_def open_sqlite_def open_pgsql_def)
qed

lemma migrate_untouched:
  assumes "fst (migrate e w) = None" and "t \<notin> set table_list"
  shows "tables (dest (snd (migrate e w))) t = tables (dest w) t"
proof -
  from assms(1) obtain tx w1 w2 where
    1: "migrate_tables e batchSize table_list (tables (dest w)) w = (Inr tx, w1)"
    and 3: "snd (migrate e w) = w2\<lparr>dest := (dest w2)\<lparr>tables := tx\<rparr>\<rparr>"
    by (rule migrate_None)
  from migrate_tables_frame [OF 1 assms(2)] 3 show ?thesis by simp
qed

lemma no_faults_env0: "\<forall>c. \<not> fails (env0 src no_faults) c"
  by (simp add: env0_def no_faults_def)

text \<open>
  C8 (the code departs from the claim). The table performer_custom_fields is not in the
  list of tables the run copies: on a source whose performer_custom_fields holds a row
  with a value, the run succeeds, sends one SELECT for each listed table and none for
  this one, and leaves the destination's performer_custom_fields empty, so no row of it
  gets a type column in the destination. The rule itself, applied to that batch, would
  set the type column.
\<close>

theorem custom_fields_not_migrated:
  "fst (migrate (env0 src_custom no_faults) world0) = None
   \<and> source (env0 src_custom no_faults) ''performer_custom_fields''
       = [[''id'' \<mapsto> VInt64 1, ''value'' \<mapsto> VString ''tall'']]
   \<and> tables (dest (snd (migrate (env0 src_custom no_faults) world0))) ''performer_custom_fields'' = []
   \<and> ''performer_custom_fields'' \<notin> set table_list
   \<and> map fst (issued (snd (migrate (env0 src_custom no_faults) world0))) = table_list
   \<and> fst (repair (env0 src_custom no_faults) ''performer_custom_fields''
            (source (env0 src_custom no_faults) ''performer_custom_fields'') world0)
       = Inr [[''id'' \<mapsto> VInt64 1, ''value'' \<mapsto> VString ''tall'', ''type'' \<mapsto> VString ''string'']]"
proof -
  have 1: "fst (migrate (env0 src_custom no_faults) world0) = None"
    by (rule migrate_succeeds [OF no_faults_env0])
  have 2: "source (env0 src_custom no_faults) ''performer_custom_fields''
       = [[''id'' \<mapsto> VInt64 1, ''value'' \<mapsto> VString ''tall'']]"
    by (simp add: env0_def src_custom_def)
  from migrate_untouched [OF 1 custom_fields_not_listed]
  have 3: "tables (dest (snd (migrate (env0 src_custom no_faults) world0))) ''performer_custom_fields'' = []"
    by (simp add: world0_def)
  have 4: "fst (repair (env0 src_custom no_faults) ''performer_custom_fields''
            (source (env0 src_custom no_faults) ''performer_custom_fields'') world0)
       = Inr [[''id'' \<mapsto> VInt64 1, ''value'' \<mapsto> VString ''tall'', ''type'' \<mapsto> VString ''string'']]"
    by (simp add: 2 repair_performer_custom_fields tag_types_eq index_def tagged_def)
  have 5: "map fst (issued (snd (migrate (env0 src_custom no_faults) world0))) = table_list"
    by (simp add: migrate_def open_sqlite_def open_pgsql_def env0_def world0_def no_faults_def src_custom_def table_list_def
        seq_tables_def batchSize_def table_loop.simps fetch_def scanned_def select_page_def Let_def)
  from 1 2 3 4 5 custom_fields_not_listed show ?thesis by blast
qed

subsection \<open>Rows read and rows written\<close>

text \<open>
  C1 (the code departs from the claim). When the JSON rule drops every row of a page of
  saved_filters, main.go still builds and executes the INSERT, from the batch left
  empty. On a source whose saved_filters holds one row, with broken JSON in
  object_filter, the run returns no error, the row is read and dropped with its
  diagnostic, and the destination's saved_filters holds one row all the same, the row
  of the columns' defaults: one row is written where the rows read less the rows
  dropped are none.
\<close>

theorem emptied_batch_inserts_a_row:
  "fst (migrate (env0 src_bad no_faults) world0) = None
   \<and> source (env0 src_bad no_faults) ''saved_filters'' = [row_bad]
   \<and> filter (dropped (env0 src_bad no_faults)) (source (env0 src_bad no_faults) ''saved_filters'')
       = [row_bad]
   \<and> filter is_skip (out (snd (migrate (env0 src_bad no_faults) world0)))
       = [SkippingRow ''object_filter'' ''unexpected end of JSON input'' ''{'']
   \<and> tables (dest (snd (migrate (env0 src_bad no_faults) world0))) ''saved_filters''
       = [defaults (env0 src_bad no_faults) ''saved_filters'']"
proof -
  let ?e = "env0 src_bad no_faults"
  have 1: "fst (migrate ?e world0) = None"
    by (rule migrate_succeeds [OF no_faults_env0])
  have 2: "source ?e ''saved_filters'' = [row_bad]"
    by (simp add: env0_def src_bad_def)
  have 3: "filter (dropped ?e) (source ?e ''saved_filters'') = [row_bad]"
    by (simp add: 2) (simp add: dropped_def bad_json_def json_columns_def row_bad_def env0_def)
  have 4: "filter is_skip (out (snd (migrate ?e world0)))
       = [SkippingRow ''object_filter'' ''unexpected end of JSON input'' ''{'']"
    and 5: "tables (dest (snd (migrate ?e world0))) ''saved_filters''
       = [defaults ?e ''saved_filters'']"
    by (simp_all add: migrate_def open_sqlite_def open_pgsql_def env0_def world0_def no_faults_def
        src_bad_def table_list_def seq_tables_def batchSize_def table_loop.simps fetch_def
        scanned_def select_page_def insert_batch_def repair_def exec_insert_def insert_rows_def
        restart_seq_def json_columns_def row_bad_def index_def Let_def)
  from 1 2 3 4 5 show ?thesis by blast
qed

subsection \<open>Pagination\<close>

text \<open>
  C2 (the code departs from the claim). Neither variant reads \<^verbatim>\<open>r.Err()\<close> after
  its loop over \<^verbatim>\<open>r.Next()\<close>: when stepping through a result fails, the rows got
  so far are taken for the page. On a source whose files holds three rows, with the
  stepping through the result of its first SELECT failing after one row, the run of
  either variant returns no error, having sent the SELECTs of files at the offsets 0 and
  1000 and written one batch, which is the first row and not the table. A failing
  \<^verbatim>\<open>MapScan\<close> for the same page, whose error the code does read, aborts the run.
\<close>

theorem stepping_error_loses_rows:
  "source env_short ''files''
       = [[''id'' \<mapsto> VInt64 3], [''id'' \<mapsto> VInt64 7], [''id'' \<mapsto> VInt64 12]]
   \<and> fst (migrate env_short world0) = None
   \<and> filter (\<lambda>q. fst q = ''files'') (issued (snd (migrate env_short world0)))
       = [(''files'', 1000, 0), (''files'', 1000, 1000)]
   \<and> tables (dest (snd (migrate env_short world0))) ''files'' = [[''id'' \<mapsto> VInt64 3]]
   \<and> fst (migrate_pb env_short world0) = None
   \<and> filter (\<lambda>q. fst q = ''files'') (issued (snd (migrate_pb env_short world0)))
       = [(''files'', 1000, 0), (''files'', 1000, 1000)]
   \<and> tables (dest (snd (migrate_pb env_short world0))) ''files'' = [[''id'' \<mapsto> VInt64 3]]
   \<and> fst (migrate (env0 src_files (only_fails (SourceScan (Page ''files'' 0)))) world0)
       = Some FailedStructScan
   \<and> fst (migrate_pb (env0 src_files (only_fails (SourceScan (Page ''files'' 0)))) world0)
       = Some FailedStructScan"
proof -
  have 1: "source env_short ''files''
       = [[''id'' \<mapsto> VInt64 3], [''id'' \<mapsto> VInt64 7], [''id'' \<mapsto> VInt64 12]]"
    by (simp add: env_short_def env0_def src_files_def)
  have nf: "\<forall>c. \<not> fails env_short c"
    by (simp add: env_short_def env0_def no_faults_def)
  have 2: "fst (migrate env_short world0) = None"
    by (rule migrate_succeeds [OF nf])
  have 3: "filter (\<lambda>q. fst q = ''files'') (issued (snd (migrate env_short world0)))
       = [(''files'', 1000, 0), (''files'', 1000, 1000)]"
    and 4: "tables (dest (snd (migrate env_short world0))) ''files'' = [[''id'' \<mapsto> VInt64 3]]"
    by (simp_all add: migrate_def open_sqlite_def open_pgsql_def env_short_def env0_def world0_def
        no_faults_def stop_after_def src_files_def table_list_def seq_tables_def batchSize_def
        table_loop.simps fetch_def scanned_def select_page_def insert_batch_def repair_def
        exec_insert_def insert_rows_def restart_seq_def Let_def)
  have 5: "fst (migrate_pb env_short world0) = None"
    and 6: "filter (\<lambda>q. fst q = ''files'') (issued (snd (migrate_pb env_short world0)))
       = [(''files'', 1000, 0), (''files'', 1000, 1000)]"
    and 7: "tables (dest (snd (migrate_pb env_short world0))) ''files'' = [[''id'' \<mapsto> VInt64 3]]"
    by (simp_all add: migrate_pb_def open_sqlite_def open_pgsql_def env_short_def env0_def
        world0_def no_faults_def stop_after_def src_files_def table_list_def seq_tables_def
        batchSize_def table_loop_pb.simps fetch_pb_def fetch_def scanned_def select_page_def
        insert_batch_pb_def exec_insert_def insert_rows_def restart_seq_def Let_def)
  have 8: "fst (migrate (env0 src_files (only_fails (SourceScan (Page ''files'' 0)))) world0)
       = Some FailedStructScan"
    by (simp add: migrate_def open_sqlite_def open_pgsql_def env0_def world0_def only_fails_def
        src_files_def table_list_def batchSize_def table_loop.simps fetch_def scanned_def
        select_page_def insert_batch_def repair_def exec_insert_def insert_rows_def Let_def)
  have 9: "fst (migrate_pb (env0 src_files (only_fails (SourceScan (Page ''files'' 0)))) world0)
       = Some FailedStructScan"
    by (simp add: migrate_pb_def open_sqlite_def open_pgsql_def env0_def world0_def only_fails_def
        src_files_def table_list_def batchSize_def table_loop_pb.simps fetch_pb_def fetch_def
        scanned_def select_page_def insert_batch_pb_def exec_insert_def insert_rows_def Let_def)
  from 1 2 3 4 5 6 7 8 9 show ?thesis by blast
qed

subsection \<open>The sequences\<close>




subsection \<open>The variant with one transaction per batch\<close>




























subsection \<open>The scope of transactions\<close>




end
